theory Spec2Isabelle
  imports Main
begin

section \<open>Python values\<close>

text \<open>
  The payloads handled by Schedy are arbitrary Python objects (\<open>T.Any\<close>). The model
  keeps the ones whose \<open>+\<close>, \<open>==\<close> and \<open>isinstance(_, int)\<close> are fixed by the
  language: \<open>None\<close>, booleans, integers and strings. As in Python, \<open>bool\<close> is a
  subclass of \<open>int\<close>: \<open>True\<close> counts as the integer 1. Floats are left out.
\<close>

datatype val = VNone | VBool bool | VInt int | VStr string

datatype exn = TypeError | ValueError | IndexError | AssertionError | OtherError

fun as_int :: "val \<Rightarrow> int option" where
  "as_int (VInt n) = Some n"
| "as_int (VBool b) = Some (if b then 1 else 0)"
| "as_int VNone = None"
| "as_int (VStr s) = None"

text \<open>Python's \<open>a + b\<close> on payloads: numbers add, strings concatenate, everything
  else raises \<open>TypeError\<close>.\<close>

fun py_add :: "val \<Rightarrow> val \<Rightarrow> exn + val" where
  "py_add (VStr a) (VStr b) = Inr (VStr (a @ b))"
| "py_add a b =
     (case as_int a of
        None \<Rightarrow> Inl TypeError
      | Some x \<Rightarrow> (case as_int b of None \<Rightarrow> Inl TypeError | Some y \<Rightarrow> Inr (VInt (x + y))))"

text \<open>Python's \<open>a == b\<close> on payloads.\<close>

fun py_eq :: "val \<Rightarrow> val \<Rightarrow> bool" where
  "py_eq VNone VNone = True"
| "py_eq (VStr a) (VStr b) = (a = b)"
| "py_eq a b =
     (case as_int a of
        None \<Rightarrow> False
      | Some x \<Rightarrow> (case as_int b of None \<Rightarrow> False | Some y \<Rightarrow> x = y))"

section \<open>Rules, schedules and rule paths\<close>

text \<open>
  Modelled from the spec: the module \<open>schedule.py\<close> (classes \<open>Rule\<close>,
  \<open>SubScheduleRule\<close>, \<open>Schedule\<close>, \<open>RulePath\<close>) is missing from the sources; only its
  uses in \<open>room.py\<close> are present. \<open>room.py\<close> reads \<open>rule.expr\<close> and \<open>rule.value\<close> of every
  rule of a path, sub-schedule rules included, and \<open>last_rule.sub_schedule\<close> after an
  \<open>isinstance\<close> test. Python compares rules and schedules as objects; \<open>rule_id\<close> and
  \<open>schedule_id\<close> stand for the object identities, so that distinct objects are unequal.
  An expression is the compiled code object used as the key of \<open>expr_cache\<close>; a rule
  without expression has \<open>expr = None\<close>, a rule without literal has \<open>rvalue = VNone\<close>.
\<close>

type_synonym expr = nat

datatype rule =
    Rule (rule_id: nat) (expr: "expr option") (rvalue: val)
  | SubScheduleRule (rule_id: nat) (expr: "expr option") (rvalue: val) schedule
and schedule =
    Schedule (schedule_id: nat) (sched_rules: "rule list")

record rule_path =
  root_schedule :: schedule
  path_rules :: "rule list"

text \<open>Modelled from the spec: \<open>RulePath(sched)\<close>, \<open>RulePath.copy\<close> and \<open>RulePath.add\<close>
  ("an immutable, append-only sequence of Rules ... also tracks which root Schedule it
  originates from").\<close>

definition RulePath :: "schedule \<Rightarrow> rule_path" where
  "RulePath sched = \<lparr>root_schedule = sched, path_rules = []\<rparr>"

definition path_copy :: "rule_path \<Rightarrow> rule_path" where
  "path_copy p = \<lparr>root_schedule = root_schedule p, path_rules = path_rules p\<rparr>"

definition path_add :: "rule_path \<Rightarrow> rule \<Rightarrow> rule_path" where
  "path_add p r = p\<lparr>path_rules := path_rules p @ [r]\<rparr>"

text \<open>Modelled from the spec: \<open>RulePath.rules_with_expr_or_value\<close>, the rules of the path
  that carry an expression or a literal, in root-to-frontier order (\<open>room.py\<close> reverses
  it).\<close>

definition rules_with_expr_or_value :: "rule_path \<Rightarrow> rule list" where
  "rules_with_expr_or_value p =
     filter (\<lambda>r. expr r \<noteq> None \<or> rvalue r \<noteq> VNone) (path_rules p)"

section \<open>The result algebra (expression.py)\<close>

datatype result_base =
    Result val
  | Abort
  | Add val
  | Break int
  | IncludeSchedule schedule
  | Skip

datatype result_type = TResult | TAbort | TAdd | TBreak | TIncludeSchedule | TSkip

fun type_of :: "result_base \<Rightarrow> result_type" where
  "type_of (Result v) = TResult"
| "type_of Abort = TAbort"
| "type_of (Add v) = TAdd"
| "type_of (Break n) = TBreak"
| "type_of (IncludeSchedule s) = TIncludeSchedule"
| "type_of Skip = TSkip"

text \<open>\<open>isinstance(r, AddibleMixin)\<close>: \<open>Result\<close> and \<open>Add\<close> carry a \<open>value\<close>.\<close>

fun is_addible :: "result_base \<Rightarrow> bool" where
  "is_addible (Result v) = True"
| "is_addible (Add v) = True"
| "is_addible r = False"

fun addible_value :: "result_base \<Rightarrow> val option" where
  "addible_value (Result v) = Some v"
| "addible_value (Add v) = Some v"
| "addible_value r = None"

text \<open>\<open>AddibleMixin.__eq__\<close>: same type and equal values.\<close>

fun AddibleMixin_eq :: "result_base \<Rightarrow> result_base \<Rightarrow> bool" where
  "AddibleMixin_eq (Result x) (Result y) = py_eq x y"
| "AddibleMixin_eq (Add x) (Add y) = py_eq x y"
| "AddibleMixin_eq a b = False"

text \<open>\<open>ResultBase.__eq__\<close>: \<open>type(self) is type(other)\<close>.\<close>

definition ResultBase_eq :: "result_base \<Rightarrow> result_base \<Rightarrow> bool" where
  "ResultBase_eq a b = (type_of a = type_of b)"

text \<open>
  \<open>a == b\<close> on results. \<open>Abort\<close>, \<open>Break\<close>, \<open>IncludeSchedule\<close> and \<open>Skip\<close> derive from
  \<open>ResultBase\<close> alone. \<open>Result\<close> and \<open>Add\<close> are declared
  \<open>class Result(ResultBase, AddibleMixin)\<close> and \<open>class Add(ResultBase, AddibleMixin)\<close>: the
  method resolution order is \<open>Result, ResultBase, AddibleMixin, object\<close>, so the lookup
  of \<open>__eq__\<close> finds \<open>ResultBase.__eq__\<close> first, for every variant.
\<close>

definition result_eq :: "result_base \<Rightarrow> result_base \<Rightarrow> bool" where
  "result_eq a b = ResultBase_eq a b"

text \<open>\<open>Add.__add__\<close>; the first argument is \<open>self.value\<close>.\<close>

fun Add_add :: "val \<Rightarrow> result_base \<Rightarrow> exn + result_base" where
  "Add_add x (Result y) =
     (case py_add x y of Inl e \<Rightarrow> Inl e | Inr s \<Rightarrow> Inr (Result s))"
| "Add_add x (Add y) =
     (case py_add x y of Inl e \<Rightarrow> Inl e | Inr s \<Rightarrow> Inr (Add s))"
| "Add_add x other = Inl TypeError"

text \<open>\<open>a + b\<close> on results: only \<open>Add\<close> defines \<open>__add__\<close>, and no class defines
  \<open>__radd__\<close>; Python raises \<open>TypeError\<close> for any other left operand.\<close>

fun result_add :: "result_base \<Rightarrow> result_base \<Rightarrow> exn + result_base" where
  "result_add (Add x) other = Add_add x other"
| "result_add a other = Inl TypeError"

text \<open>\<open>Break.__init__(levels)\<close>; \<open>Break()\<close> is \<open>Break_init (VInt 1)\<close>. A stored \<open>True\<close>
  behaves as the integer 1 everywhere it is read.\<close>

definition Break_init :: "val \<Rightarrow> exn + result_base" where
  "Break_init levels =
     (case as_int levels of
        None \<Rightarrow> Inl ValueError
      | Some n \<Rightarrow> if n < 1 then Inl ValueError else Inr (Break n))"

text \<open>
  \<open>expression.eval_expr\<close>. The call \<open>eval(expr, env)\<close> is the injected evaluator
  \<open>py_eval\<close>: it raises, or returns a Python object that is a result or a plain value.
\<close>

datatype pyobj = Plain val | ResultObj result_base

definition eval_expr :: "(expr \<Rightarrow> exn + pyobj) \<Rightarrow> expr \<Rightarrow> exn + result_base" where
  "eval_expr py_eval e =
     (case py_eval e of
        Inl err \<Rightarrow> Inl err
      | Inr (Plain v) \<Rightarrow> Inr (Result v)
      | Inr (ResultObj r) \<Rightarrow> Inr r)"

section \<open>The collaborators of a room\<close>

text \<open>
  What \<open>room.py\<close> calls but does not define: the evaluation of an expression
  (\<open>py_eval\<close>), the actor type's \<open>validate_value\<close> and \<open>serialize_value\<close> (\<open>None\<close> when
  they raise \<open>ValueError\<close>), the validity of a rule at a time (the constraints checked
  by \<open>Schedule.get_matching_rules\<close>) and the clock \<open>app.datetime()\<close>, in minutes.
\<close>

record env =
  py_eval :: "expr \<Rightarrow> exn + pyobj"
  actor_validate_value :: "val \<Rightarrow> val option"
  actor_serialize_value :: "val \<Rightarrow> string option"
  rule_valid :: "rule \<Rightarrow> int \<Rightarrow> bool"
  now :: int

text \<open>Modelled from the spec: \<open>Schedule.get_matching_rules(when)\<close>, "all rules whose
  validity predicate holds at \<open>at_time\<close>, preserving configured order".\<close>

definition get_matching_rules :: "env \<Rightarrow> schedule \<Rightarrow> int \<Rightarrow> rule list" where
  "get_matching_rules E sched when = filter (\<lambda>r. rule_valid E r when) (sched_rules sched)"

text \<open>\<open>Room._validate_value\<close>: \<open>None\<close> when the actor type rejects the value.\<close>

definition validate_value :: "env \<Rightarrow> val \<Rightarrow> val" where
  "validate_value E v = (case actor_validate_value E v of None \<Rightarrow> VNone | Some v' \<Rightarrow> v')"

text \<open>\<open>Room.eval_expr\<close>: an exception raised by the evaluation is caught and returned
  as a value (\<open>Inl\<close>).\<close>

type_synonym cached = "exn + result_base"

definition room_eval_expr :: "env \<Rightarrow> expr \<Rightarrow> cached" where
  "room_eval_expr E e = eval_expr (py_eval E) e"

section \<open>Schedule evaluation (Room.eval_schedule)\<close>

text \<open>
  The local variables of \<open>eval_schedule\<close>. Two fields are not in the source:
  \<open>evals\<close> logs the expressions handed to \<open>self.eval_expr\<close>, in order; \<open>result_src\<close>
  records that the object bound to \<open>result\<close> is the very object stored in
  \<open>expr_cache\<close> under that expression (after \<open>result = _result\<close>), so that the
  assignment \<open>_result.value = value\<close> to a cached object is seen through \<open>result\<close> as
  well. Each evaluation is taken to return a fresh object.
\<close>

record eval_state =
  result :: "result_base option"
  result_src :: "expr option"
  expr_cache :: "expr \<Rightarrow> cached option"
  paths :: "rule_path list"
  path_idx :: nat
  evals :: "expr list"

datatype control = Cont | Ret "(val \<times> rule) option" | Raise exn

text \<open>\<open>list.insert(i, x)\<close> (an index beyond the end appends) and \<open>del xs[i]\<close>.\<close>

definition list_insert :: "'a list \<Rightarrow> nat \<Rightarrow> 'a \<Rightarrow> 'a list" where
  "list_insert xs i x = take i xs @ x # drop i xs"

definition list_del :: "'a list \<Rightarrow> nat \<Rightarrow> 'a list" where
  "list_del xs i = take i xs @ drop (Suc i) xs"

fun insert_paths :: "rule_path list \<Rightarrow> nat \<Rightarrow> rule_path \<Rightarrow> rule list \<Rightarrow> rule_path list" where
  "insert_paths ps first_index path_prefix [] = ps"
| "insert_paths ps first_index path_prefix (r # rs) =
     insert_paths (list_insert ps first_index (path_add (path_copy path_prefix) r))
       (first_index + 1) path_prefix rs"

text \<open>
  The \<open>for rule in reversed(rules_with_expr_or_value)\<close> loop; the argument is the
  reversed list. It returns \<open>_result\<close> with the cache key it was read from or stored
  under (\<open>None\<close> for a literal), or \<open>None\<close> when \<open>_result\<close> is still \<open>None\<close> at the end.
  \<open>self.eval_expr\<close> returns a result or an exception, never \<open>None\<close>, so the loop
  leaves at the first rule that has an expression.
\<close>

fun scan_rules :: "env \<Rightarrow> rule list \<Rightarrow> eval_state \<Rightarrow> (cached \<times> expr option) option \<times> eval_state" where
  "scan_rules E [] st = (None, st)"
| "scan_rules E (r # rs) st =
     (case expr r of
        Some e \<Rightarrow>
          (case expr_cache st e of
             Some c \<Rightarrow> (Some (c, Some e), st)
           | None \<Rightarrow>
               (Some (room_eval_expr E e, Some e),
                st\<lparr>expr_cache := (expr_cache st)(e \<mapsto> room_eval_expr E e),
                   evals := evals st @ [e]\<rparr>))
      | None \<Rightarrow>
          (if rvalue r \<noteq> VNone then (Some (Inr (Result (rvalue r)), None), st)
           else scan_rules E rs st))"

text \<open>\<open>_result.value = value\<close>.\<close>

fun set_payload :: "result_base \<Rightarrow> val \<Rightarrow> result_base" where
  "set_payload (Result x) v = Result v"
| "set_payload (Add x) v = Add v"
| "set_payload r v = r"

text \<open>\<open>if isinstance(result, expression.Result): return result.value, last_rule\<close>.\<close>

definition check_final :: "rule \<Rightarrow> eval_state \<Rightarrow> control \<times> eval_state" where
  "check_final last_rule st =
     (case result st of
        Some (Result v) \<Rightarrow> (Ret (Some (v, last_rule)), st)
      | _ \<Rightarrow> (Cont, st))"

text \<open>The branch \<open>isinstance(_result, expression.AddibleMixin)\<close>; \<open>v\<close> is
  \<open>_result.value\<close>, \<open>src\<close> the cache key of \<open>_result\<close>.\<close>

definition handle_addible ::
  "env \<Rightarrow> rule \<Rightarrow> result_base \<Rightarrow> val \<Rightarrow> expr option \<Rightarrow> eval_state \<Rightarrow> control \<times> eval_state" where
  "handle_addible E last_rule r v src st =
     (let value = validate_value E v in
      if value = VNone then (Cont, st)
      else
        let r' = set_payload r value;
            st1 = st\<lparr>expr_cache :=
                        (case src of None \<Rightarrow> expr_cache st
                         | Some e \<Rightarrow> (expr_cache st)(e \<mapsto> Inr r')),
                     result :=
                        (if src \<noteq> None \<and> result_src st = src
                         then map_option (\<lambda>a. set_payload a value) (result st)
                         else result st)\<rparr>
        in case result st1 of
             None \<Rightarrow> check_final last_rule (st1\<lparr>result := Some r', result_src := src\<rparr>)
           | Some acc \<Rightarrow>
               (case result_add acc r' of
                  Inl TypeError \<Rightarrow> (Cont, st1)
                | Inl err \<Rightarrow> (Raise err, st1)
                | Inr s \<Rightarrow> check_final last_rule (st1\<lparr>result := Some s, result_src := None\<rparr>)))"

text \<open>The inner \<open>while\<close> loop of the \<open>Break\<close> branch, deleting at \<open>path_idx\<close>.\<close>

function prune_paths ::
  "rule_path list \<Rightarrow> nat \<Rightarrow> schedule \<Rightarrow> nat \<Rightarrow> rule list \<Rightarrow> rule_path list" where
  "prune_paths ps idx root prefix_size prefix =
     (if idx < length ps \<and> root_schedule (ps ! idx) = root \<and>
         take prefix_size (path_rules (ps ! idx)) = prefix
      then prune_paths (list_del ps idx) idx root prefix_size prefix
      else ps)"
  by pat_completeness auto
termination
  by (relation "measure (\<lambda>(ps, idx, root, prefix_size, prefix). length ps)")
     (auto simp: list_del_def)

declare prune_paths.simps [simp del]

text \<open>The classification of a result that is neither \<open>None\<close> nor an exception, in the
  order of the source; \<open>Skip\<close> matches no branch.\<close>

definition handle_result ::
  "env \<Rightarrow> int \<Rightarrow> rule_path \<Rightarrow> rule \<Rightarrow> result_base \<Rightarrow> expr option \<Rightarrow> eval_state
     \<Rightarrow> control \<times> eval_state" where
  "handle_result E when path last_rule r src st =
     (case r of
        Result v \<Rightarrow> handle_addible E last_rule r v src st
      | Add v \<Rightarrow> handle_addible E last_rule r v src st
      | Abort \<Rightarrow> (Ret None, st)
      | Break levels \<Rightarrow>
          (let prefix_size = nat (max 0 (int (length (path_rules path)) - levels));
               prefix = take prefix_size (path_rules path)
           in (Cont, st\<lparr>paths := prune_paths (paths st) (path_idx st) (root_schedule path)
                                    prefix_size prefix\<rparr>))
      | IncludeSchedule sched \<Rightarrow>
          (Cont, st\<lparr>paths := insert_paths (paths st) (path_idx st) (RulePath sched)
                                (get_matching_rules E sched when)\<rparr>)
      | Skip \<Rightarrow> (Cont, st))"

text \<open>One iteration of the outer \<open>while path_idx < len(paths)\<close> loop, run when the
  loop condition holds. \<open>path.rules[-1]\<close> raises \<open>IndexError\<close> on an empty path.\<close>

definition eval_step :: "env \<Rightarrow> int \<Rightarrow> eval_state \<Rightarrow> control \<times> eval_state" where
  "eval_step E when st0 =
     (let path = paths st0 ! path_idx st0;
          st = st0\<lparr>path_idx := path_idx st0 + 1\<rparr>
      in if path_rules path = [] then (Raise IndexError, st)
         else
           (case last (path_rules path) of
              SubScheduleRule i x v sub \<Rightarrow>
                (Cont, st\<lparr>paths := insert_paths (paths st) (path_idx st) path
                                      (get_matching_rules E sub when)\<rparr>)
            | Rule i x v \<Rightarrow>
                (case scan_rules E (rev (rules_with_expr_or_value path)) st of
                   (None, st1) \<Rightarrow> (Cont, st1)
                 | (Some (Inl err, src), st1) \<Rightarrow> (Cont, st1)
                 | (Some (Inr r, src), st1) \<Rightarrow>
                     handle_result E when path (last (path_rules path)) r src st1)))"

text \<open>
  The outer loop. Splicing a schedule with \<open>IncludeSchedule\<close> can refill the worklist
  for ever, so the loop is given fuel: \<open>Cont\<close> as the outcome means that the iterations
  allowed did not suffice; \<open>Ret\<close> is the value returned (\<open>break\<close> on \<open>Abort\<close> and the
  exhausted worklist both reach \<open>return None\<close>).
\<close>

fun eval_loop :: "env \<Rightarrow> int \<Rightarrow> nat \<Rightarrow> eval_state \<Rightarrow> control \<times> eval_state" where
  "eval_loop E when 0 st = (Cont, st)"
| "eval_loop E when (Suc n) st =
     (if path_idx st < length (paths st) then
        (case eval_step E when st of
           (Cont, st') \<Rightarrow> eval_loop E when n st'
         | (c, st') \<Rightarrow> (c, st'))
      else (Ret None, st))"

definition init_state :: "env \<Rightarrow> schedule \<Rightarrow> int \<Rightarrow> eval_state" where
  "init_state E sched when =
     \<lparr>result = None, result_src = None, expr_cache = Map.empty,
      paths = insert_paths [] 0 (RulePath sched) (get_matching_rules E sched when),
      path_idx = 0, evals = []\<rparr>"

definition eval_schedule :: "env \<Rightarrow> nat \<Rightarrow> schedule \<Rightarrow> int \<Rightarrow> control \<times> eval_state" where
  "eval_schedule E fuel sched when = eval_loop E when fuel (init_state E sched when)"

section \<open>The room (room.py)\<close>

text \<open>
  The fields of \<open>Room\<close> that the reconciliation reads and writes, and what it does to
  its host: \<open>sent\<close> logs the calls \<open>actor.set_value(value, force_resend)\<close> as (actor,
  value, force_resend), \<open>sensor\<close> is the \<open>scheduled_value\<close> sensor written by
  \<open>_set_sensor\<close>, \<open>timers\<close> the timers registered with \<open>app.run_at\<close> and not cancelled
  (handle and time), \<open>next_timer\<close> the next handle \<open>app.run_at\<close> gives out. The delay
  \<open>cfg["reschedule_delay"]\<close> is in minutes.
\<close>

record room =
  cfg_replicate_changes :: bool
  cfg_reschedule_delay :: int
  actors :: "nat list"
  room_schedule :: "schedule option"
  wanted_value :: val
  scheduled_value :: val
  reschedule_timer :: "nat option"
  sent :: "(nat \<times> val \<times> bool) list"
  sensor :: "string option"
  timers :: "(nat \<times> int) list"
  next_timer :: nat

datatype 'a outcome = Done 'a | Failed exn | OutOfFuel

definition get_scheduled_value :: "env \<Rightarrow> nat \<Rightarrow> room \<Rightarrow> control" where
  "get_scheduled_value E fuel rm =
     (case room_schedule rm of
        None \<Rightarrow> Ret None
      | Some sched \<Rightarrow> fst (eval_schedule E fuel sched (now E)))"

definition set_value :: "val \<Rightarrow> bool \<Rightarrow> bool \<Rightarrow> room \<Rightarrow> room" where
  "set_value value scheduled force_resend rm =
     rm\<lparr>wanted_value := value,
        sent := sent rm @ map (\<lambda>actor. (actor, value, force_resend)) (actors rm)\<rparr>"

definition cancel_reschedule_timer :: "room \<Rightarrow> bool \<times> room" where
  "cancel_reschedule_timer rm =
     (case reschedule_timer rm of
        None \<Rightarrow> (False, rm)
      | Some timer \<Rightarrow>
          (True, rm\<lparr>timers := filter (\<lambda>t. fst t \<noteq> timer) (timers rm),
                    reschedule_timer := None\<rparr>))"

definition start_reschedule_timer :: "env \<Rightarrow> int option \<Rightarrow> bool \<Rightarrow> room \<Rightarrow> bool \<times> room" where
  "start_reschedule_timer E reschedule_delay restart rm =
     (if reschedule_timer rm \<noteq> None \<and> \<not> restart then (False, rm)
      else
        let rm1 = (if reschedule_timer rm \<noteq> None then snd (cancel_reschedule_timer rm) else rm);
            delay = (case reschedule_delay of None \<Rightarrow> cfg_reschedule_delay rm1 | Some d \<Rightarrow> d);
            when = now E + delay
        in (True, rm1\<lparr>timers := timers rm1 @ [(next_timer rm1, when)],
                      next_timer := next_timer rm1 + 1,
                      reschedule_timer := Some (next_timer rm1)\<rparr>))"

definition apply_schedule :: "env \<Rightarrow> nat \<Rightarrow> bool \<Rightarrow> bool \<Rightarrow> room \<Rightarrow> room outcome" where
  "apply_schedule E fuel send force_resend rm =
     (if reschedule_timer rm \<noteq> None then Done rm
      else
        (case get_scheduled_value E fuel rm of
           Cont \<Rightarrow> OutOfFuel
         | Raise err \<Rightarrow> Failed err
         | Ret None \<Rightarrow> Done rm
         | Ret (Some (value, rule)) \<Rightarrow>
             if py_eq value (scheduled_value rm) \<and> \<not> force_resend then Done rm
             else
               let rm1 = rm\<lparr>scheduled_value := value\<rparr>;
                   rm2 = (case actor_serialize_value E value of
                            None \<Rightarrow> rm1
                          | Some s \<Rightarrow> rm1\<lparr>sensor := Some s\<rparr>)
               in if \<not> send then Done rm2
                  else Done (set_value value True force_resend rm2)))"

definition notify_value_changed :: "env \<Rightarrow> nat \<Rightarrow> val \<Rightarrow> room \<Rightarrow> room" where
  "notify_value_changed E actor value rm =
     (let rm1 = (if cfg_replicate_changes rm \<and> length (actors rm) > 1
                 then set_value value False False rm else rm)
      in if py_eq value (wanted_value rm1) then snd (cancel_reschedule_timer rm1)
         else if cfg_reschedule_delay rm1 \<noteq> 0
              then snd (start_reschedule_timer E None True rm1)
              else rm1)"

text \<open>\<open>set_value_manually\<close> called with a value (\<open>expr_raw\<close> is \<open>None\<close>); the
  assertion wants exactly one of the two.\<close>

definition set_value_manually ::
  "env \<Rightarrow> val \<Rightarrow> bool \<Rightarrow> int option \<Rightarrow> room \<Rightarrow> room outcome" where
  "set_value_manually E value force_resend reschedule_delay rm =
     (if value = VNone then Failed AssertionError
      else Done (snd (start_reschedule_timer E reschedule_delay True
                        (set_value value False force_resend rm))))"

text \<open>The invariant of the loop behind the memoization: no expression is logged
  twice, and every logged expression has an entry in the cache.\<close>

definition memo_inv :: "eval_state \<Rightarrow> bool" where
  "memo_inv st = (distinct (evals st) \<and> set (evals st) \<subseteq> dom (expr_cache st))"

section \<open>Example configurations\<close>

text \<open>
  A host for the examples: an actor type that accepts every value unchanged (as
  \<open>Generic.validate_value\<close> does) and serializes strings, every rule valid at every
  time, the clock at 0. The evaluator is left open.
\<close>

definition generic_env :: "(expr \<Rightarrow> exn + pyobj) \<Rightarrow> env" where
  "generic_env ev =
     \<lparr>py_eval = ev, actor_validate_value = Some,
      actor_serialize_value = (\<lambda>v. case v of VStr s \<Rightarrow> Some s | _ \<Rightarrow> None),
      rule_valid = (\<lambda>r t. True), now = 0\<rparr>"

text \<open>A sub-schedule rule \<open>R1\<close> with expression 1 around a sub-schedule rule \<open>R2\<close>
  with expression 2 around a rule \<open>R3\<close> that has neither expression nor value;
  expression 1 evaluates to the plain value 7, expression 2 to the result given.\<close>

definition R3 :: rule where
  "R3 = Rule 3 None VNone"

definition R2 :: rule where
  "R2 = SubScheduleRule 2 (Some 2) VNone (Schedule 2 [R3])"

definition R1 :: rule where
  "R1 = SubScheduleRule 1 (Some 1) VNone (Schedule 1 [R2])"

definition override_sched :: schedule where
  "override_sched = Schedule 0 [R1]"

definition ev_inner :: "result_base \<Rightarrow> expr \<Rightarrow> exn + pyobj" where
  "ev_inner r e = (if e = 2 then Inr (ResultObj r) else Inr (Plain (VInt 7)))"

text \<open>The state of the run on \<open>override_sched\<close> after two iterations, which have
  expanded \<open>R1\<close> and \<open>R2\<close>: the cursor is on the path \<open>[R1, R2, R3]\<close>.\<close>

definition override_state :: eval_state where
  "override_state =
     \<lparr>result = None, result_src = None, expr_cache = Map.empty,
      paths = [\<lparr>root_schedule = override_sched, path_rules = [R1]\<rparr>,
               \<lparr>root_schedule = override_sched, path_rules = [R1, R2]\<rparr>,
               \<lparr>root_schedule = override_sched, path_rules = [R1, R2, R3]\<rparr>],
      path_idx = 2, evals = []\<rparr>"

text \<open>Three rules of one schedule; the first two share expression 1, whose evaluation
  raises, the third has expression 2, which evaluates to the plain value 5.\<close>

definition memo_sched :: schedule where
  "memo_sched = Schedule 0 [Rule 1 (Some 1) VNone, Rule 2 (Some 1) VNone, Rule 3 (Some 2) VNone]"

definition ev_memo :: "expr \<Rightarrow> exn + pyobj" where
  "ev_memo e = (if e = 1 then Inl OtherError else Inr (Plain (VInt 5)))"

text \<open>Three rules of one schedule with expressions 1, 2 and 3: expression 1 evaluates
  to \<open>Add(2)\<close>, expression 2 to the result given, expression 3 to the plain value 3.\<close>

definition accum_sched :: schedule where
  "accum_sched = Schedule 0 [Rule 1 (Some 1) VNone, Rule 2 (Some 2) VNone, Rule 3 (Some 3) VNone]"

definition ev_accum :: "result_base \<Rightarrow> expr \<Rightarrow> exn + pyobj" where
  "ev_accum second e =
     (if e = 1 then Inr (ResultObj (Add (VInt 2)))
      else if e = 2 then Inr (ResultObj second)
      else Inr (Plain (VInt 3)))"

text \<open>The state of the run on \<open>accum_sched\<close> after its first iteration: \<open>Add(2)\<close> is
  accumulated, the cursor is on the second rule.\<close>

definition accum_state :: eval_state where
  "accum_state =
     \<lparr>result = Some (Add (VInt 2)), result_src = Some 1,
      expr_cache = [1 \<mapsto> Inr (Add (VInt 2))],
      paths = [\<lparr>root_schedule = accum_sched, path_rules = [Rule 1 (Some 1) VNone]\<rparr>,
               \<lparr>root_schedule = accum_sched, path_rules = [Rule 2 (Some 2) VNone]\<rparr>,
               \<lparr>root_schedule = accum_sched, path_rules = [Rule 3 (Some 3) VNone]\<rparr>],
      path_idx = 1, evals = [1]\<rparr>"

text \<open>A room with one actor and the given schedule, converged on \<open>off\<close>.\<close>

definition switch_room :: "schedule \<Rightarrow> room" where
  "switch_room sched =
     \<lparr>cfg_replicate_changes = False, cfg_reschedule_delay = 60, actors = [1],
      room_schedule = Some sched, wanted_value = VStr ''off'', scheduled_value = VStr ''off'',
      reschedule_timer = None, sent = [], sensor = Some ''off'', timers = [], next_timer = 0\<rparr>"

text \<open>
  The schedule of the pruning example: \<open>A\<close> is a sub-schedule rule holding \<open>B\<close> and \<open>E\<close>,
  \<open>B\<close> is a sub-schedule rule holding \<open>C\<close> and \<open>D\<close>. \<open>C\<close> has an expression, which
  evaluates to \<open>Break(n)\<close>; \<open>D\<close> and \<open>E\<close> have literal values.
\<close>

definition rule_C :: rule where
  "rule_C = Rule 3 (Some 1) VNone"

definition rule_D :: rule where
  "rule_D = Rule 4 None (VInt 20)"

definition rule_E :: rule where
  "rule_E = Rule 5 None (VInt 18)"

definition rule_B :: rule where
  "rule_B = SubScheduleRule 2 None VNone (Schedule 2 [rule_C, rule_D])"

definition rule_A :: rule where
  "rule_A = SubScheduleRule 1 None VNone (Schedule 1 [rule_B, rule_E])"

definition break_sched :: schedule where
  "break_sched = Schedule 0 [rule_A]"

definition ev_break :: "int \<Rightarrow> expr \<Rightarrow> exn + pyobj" where
  "ev_break n e = Inr (ResultObj (Break n))"

definition break_path :: "rule list \<Rightarrow> rule_path" where
  "break_path rs = \<lparr>root_schedule = break_sched, path_rules = rs\<rparr>"

text \<open>The state of the run on \<open>break_sched\<close> after two iterations, which have expanded
  \<open>A\<close> and \<open>B\<close>: the cursor is on \<open>[A, B, C]\<close>, and \<open>[A, B, D]\<close> and \<open>[A, E]\<close> follow.\<close>

definition break_state :: eval_state where
  "break_state =
     \<lparr>result = None, result_src = None, expr_cache = Map.empty,
      paths = [break_path [rule_A], break_path [rule_A, rule_B],
               break_path [rule_A, rule_B, rule_C], break_path [rule_A, rule_B, rule_D],
               break_path [rule_A, rule_E]],
      path_idx = 2, evals = []\<rparr>"

text \<open>A room with two actors that replicates changes, converged on 20, with a
  re-schedule delay of 60 minutes and no timer running.\<close>

definition drift_room :: room where
  "drift_room =
     \<lparr>cfg_replicate_changes = True, cfg_reschedule_delay = 60, actors = [1, 2],
      room_schedule = None, wanted_value = VInt 20, scheduled_value = VInt 20,
      reschedule_timer = None, sent = [], sensor = None, timers = [], next_timer = 0\<rparr>"

text \<open>A schedule of one rule with expression 1, and an evaluator that gives every
  expression the same plain value.\<close>

definition switch_sched :: schedule where
  "switch_sched = Schedule 0 [Rule 1 (Some 1) VNone]"

definition ev_const :: "val \<Rightarrow> expr \<Rightarrow> exn + pyobj" where
  "ev_const v e = Inr (Plain v)"

text \<open>
  The room \<open>switch_room switch_sched\<close> after a manual request for \<open>on\<close> that the actor has
  confirmed: \<open>set_value_manually\<close> has sent \<open>on\<close> and started a timer, the report of \<open>on\<close>
  by the actor has cancelled it.
\<close>

definition overridden_room :: room where
  "overridden_room =
     \<lparr>cfg_replicate_changes = False, cfg_reschedule_delay = 60, actors = [1],
      room_schedule = Some switch_sched, wanted_value = VStr ''on'',
      scheduled_value = VStr ''off'', reschedule_timer = None,
      sent = [(1, VStr ''on'', False)], sensor = Some ''off'', timers = [], next_timer = 1\<rparr>"

section \<open>Auxiliary facts\<close>

lemmas run_simps =
  eval_schedule_def init_state_def eval_step_def handle_result_def handle_addible_def
  check_final_def get_matching_rules_def RulePath_def path_copy_def path_add_def
  list_insert_def list_del_def rules_with_expr_or_value_def validate_value_def
  room_eval_expr_def eval_expr_def generic_env_def Let_def

text \<open>The scan of a path changes the cache and the log of evaluations only.\<close>

lemma scan_rules_frame:
  "scan_rules E rs st = (res, st') \<Longrightarrow>
     result st' = result st \<and> result_src st' = result_src st \<and> paths st' = paths st \<and>
     path_idx st' = path_idx st"
  by (induction rs) (auto split: option.splits if_splits)

text \<open>The scan stops at the innermost rule when that rule has an expression.\<close>

lemma scan_rules_innermost:
  assumes "expr r2 = Some e2"
  shows "scan_rules E (rev (outer @ [r2])) st =
           (case expr_cache st e2 of
              Some c \<Rightarrow> (Some (c, Some e2), st)
            | None \<Rightarrow> (Some (room_eval_expr E e2, Some e2),
                        st\<lparr>expr_cache := (expr_cache st)(e2 \<mapsto> room_eval_expr E e2),
                           evals := evals st @ [e2]\<rparr>))"
  using assms by simp

lemma eval_step_value_rule:
  assumes "paths st ! path_idx st = p" and "path_rules p \<noteq> []"
    and "last (path_rules p) = Rule i x lit"
    and "scan_rules E (rev (rules_with_expr_or_value p)) (st\<lparr>path_idx := Suc (path_idx st)\<rparr>)
           = (Some (Inr r, src), st1)"
  shows "eval_step E w st = handle_result E w p (Rule i x lit) r src st1"
  using assms by (simp add: eval_step_def)

text \<open>Iterations compose: a run that is still going after \<open>k\<close> iterations continues
  from the state it has reached.\<close>

lemma eval_loop_add:
  "eval_loop E w k st0 = (Cont, st) \<Longrightarrow> eval_loop E w (k + m) st0 = eval_loop E w m st"
proof (induction k arbitrary: st0)
  case 0
  then show ?case by simp
next
  case (Suc k)
  from Suc.prems have run: "path_idx st0 < length (paths st0)"
    by (simp split: if_splits)
  obtain c st' where step: "eval_step E w st0 = (c, st')"
    by (cases "eval_step E w st0")
  with Suc.prems run have "c = Cont" and "eval_loop E w k st' = (Cont, st)"
    by (cases c; simp)+
  with Suc.IH [of st'] run step show ?case by simp
qed

lemma check_final_evals: "evals (snd (check_final r st)) = evals st"
  by (simp add: check_final_def split: option.split result_base.split)

lemma check_final_cache: "expr_cache (snd (check_final r st)) = expr_cache st"
  by (simp add: check_final_def split: option.split result_base.split)

lemma handle_addible_evals: "evals (snd (handle_addible E lr r v src st)) = evals st"
  by (simp add: handle_addible_def Let_def check_final_evals
           split: option.split sum.split exn.split)

lemma handle_addible_dom:
  "dom (expr_cache st) \<subseteq> dom (expr_cache (snd (handle_addible E lr r v src st)))"
  by (auto simp: handle_addible_def Let_def check_final_cache
           split: option.split sum.split exn.split)

lemma handle_result_evals: "evals (snd (handle_result E w p lr r src st)) = evals st"
  by (cases r) (simp_all add: handle_result_def Let_def handle_addible_evals)

lemma handle_result_dom:
  "dom (expr_cache st) \<subseteq> dom (expr_cache (snd (handle_result E w p lr r src st)))"
  by (cases r) (simp_all add: handle_result_def Let_def handle_addible_dom)

lemma handle_addible_first:
  assumes "validate_value E v = v" "v \<noteq> VNone" "result st = None"
  shows "fst (handle_addible E lr (Result v) v src st) = Ret (Some (v, lr))"
  using assms by (simp add: handle_addible_def check_final_def Let_def)

subsection \<open>Every evaluated expression is in the cache\<close>

lemma scan_rules_memo: "memo_inv st \<Longrightarrow> memo_inv (snd (scan_rules E rs st))"
  by (induction rs) (auto simp: memo_inv_def split: option.splits)

lemma handle_result_memo: "memo_inv st \<Longrightarrow> memo_inv (snd (handle_result E w p lr r src st))"
  unfolding memo_inv_def using handle_result_dom [of st E w p lr r src]
  by (simp add: handle_result_evals) blast

lemma eval_step_memo:
  assumes "memo_inv st"
  shows "memo_inv (snd (eval_step E w st))"
proof -
  let ?st = "st\<lparr>path_idx := path_idx st + 1\<rparr>"
  let ?p = "paths st ! path_idx st"
  have a: "memo_inv ?st" using assms by (simp add: memo_inv_def)
  have b: "memo_inv (?st\<lparr>paths := ps\<rparr>)" for ps using assms by (simp add: memo_inv_def)
  have c: "memo_inv (snd (scan_rules E (rev (rules_with_expr_or_value ?p)) ?st))"
    using a by (rule scan_rules_memo)
  show ?thesis
  proof (cases "scan_rules E (rev (rules_with_expr_or_value ?p)) ?st")
    case (Pair res st1)
    with c have d: "memo_inv st1" by simp
    show ?thesis
      using a b d Pair
      by (simp add: eval_step_def Let_def handle_result_memo
               split: rule.split option.split sum.split prod.split)
  qed
qed

lemma eval_loop_memo: "memo_inv st \<Longrightarrow> memo_inv (snd (eval_loop E w n st))"
proof (induction n arbitrary: st)
  case 0
  then show ?case by simp
next
  case (Suc n)
  show ?case
  proof (cases "eval_step E w st")
    case (Pair c st')
    have "memo_inv st'" using eval_step_memo [OF Suc.prems, of E w] Pair by simp
    with Suc.IH [of st'] Suc.prems Pair show ?thesis
      by (cases c) simp_all
  qed
qed

lemma init_state_memo: "memo_inv (init_state E s w)"
  by (simp add: memo_inv_def init_state_def)

subsection \<open>Values and example states\<close>

lemma py_eq_refl: "py_eq v v"
  by (cases v) simp_all

text \<open>The state \<open>accum_state\<close> is the one the run on \<open>accum_sched\<close> reaches.\<close>

lemma accum_state_reached:
  "eval_loop (generic_env (ev_accum second)) 0 (Suc 0)
     (init_state (generic_env (ev_accum second)) accum_sched 0) = (Cont, accum_state)"
  by (simp add: run_simps accum_sched_def accum_state_def ev_accum_def)

section \<open>The claims\<close>

subsection \<open>C1: override precedence within a path\<close>

text \<open>
  C1, as stated, at the schedule \<open>override_sched\<close>: the frontier rule \<open>R3\<close> has the
  ancestors \<open>R1\<close> (outer) and \<open>R2\<close> (inner); the expression of \<open>R2\<close> yields \<open>Skip\<close>, that
  of \<open>R1\<close> evaluates to 7. The claim has the value of \<open>R1\<close> used for the path; the run
  returns no result, and the expression of \<open>R1\<close> is never evaluated (only expression 2
  is).
\<close>

theorem skip_uses_outer_counterexample:
  "fst (eval_schedule (generic_env (ev_inner Skip)) 4 override_sched 0) = Ret None \<and>
   fst (eval_schedule (generic_env (ev_inner Skip)) 4 override_sched 0)
     \<noteq> Ret (Some (VInt 7, R3)) \<and>
   evals (snd (eval_schedule (generic_env (ev_inner Skip)) 4 override_sched 0)) = [2]"
  by (simp add: run_simps eval_nat_numeral override_sched_def R1_def R2_def R3_def ev_inner_def)

text \<open>
  C1 (amended). The cursor of the worklist is on a path \<open>p\<close> whose frontier is a value
  rule and whose rules with an expression or value end with \<open>R1\<close> (outer) and \<open>R2\<close>
  (innermost), both carrying expressions; \<open>y\<close> is what the expression of \<open>R2\<close> yields
  (from the cache, or else from the evaluator). Whatever \<open>R1\<close> is: if \<open>y\<close> is
  \<open>Result v\<close>, with \<open>v\<close> accepted unchanged by the validator and nothing accumulated so
  far, the resolution returns \<open>v\<close> and the frontier rule; if \<open>y\<close> is \<open>Skip\<close>, the path
  contributes nothing and the traversal goes on with the next path, accumulator and
  worklist unchanged. In both cases no expression other than that of \<open>R2\<close> is evaluated.
\<close>

theorem innermost_expression_decides:
  assumes cur: "path_idx st < length (paths st)" "paths st ! path_idx st = p"
    and frontier: "path_rules p \<noteq> []" "last (path_rules p) = Rule i x lit"
    and anc: "rules_with_expr_or_value p = outer @ [r1, r2]"
    and exprs: "expr r1 = Some e1" "expr r2 = Some e2"
    and yield: "(case expr_cache st e2 of Some c \<Rightarrow> c | None \<Rightarrow> room_eval_expr E e2) = Inr y"
  shows "(y = Result v \<and> validate_value E v = v \<and> v \<noteq> VNone \<and> result st = None \<longrightarrow>
            fst (eval_loop E w (Suc n) st) = Ret (Some (v, Rule i x lit))) \<and>
         (y = Skip \<longrightarrow>
            eval_loop E w (Suc n) st = eval_loop E w n (snd (eval_step E w st)) \<and>
            result (snd (eval_step E w st)) = result st \<and>
            paths (snd (eval_step E w st)) = paths st \<and>
            path_idx (snd (eval_step E w st)) = Suc (path_idx st)) \<and>
         set (evals (snd (eval_step E w st))) \<subseteq> insert e2 (set (evals st))"
proof -
  let ?st = "st\<lparr>path_idx := Suc (path_idx st)\<rparr>"
  obtain st1 where scan:
    "scan_rules E (rev (rules_with_expr_or_value p)) ?st = (Some (Inr y, Some e2), st1)"
    and st1: "st1 = ?st \<or> st1 = ?st\<lparr>expr_cache := (expr_cache st)(e2 \<mapsto> room_eval_expr E e2),
                                      evals := evals st @ [e2]\<rparr>"
    using yield exprs(2) scan_rules_innermost [of r2 e2 E "outer @ [r1]" ?st]
    by (auto simp: anc split: option.splits)
  have step: "eval_step E w st = handle_result E w p (Rule i x lit) y (Some e2) st1"
    using eval_step_value_rule [OF cur(2) frontier scan] .
  have ev: "set (evals st1) \<subseteq> insert e2 (set (evals st))"
    using st1 by auto
  have res: "result st1 = result st" "paths st1 = paths st" "path_idx st1 = Suc (path_idx st)"
    using st1 by auto
  have final: "fst (eval_loop E w (Suc n) st) = Ret (Some (v, Rule i x lit))"
    if "y = Result v" "validate_value E v = v" "v \<noteq> VNone" "result st = None"
  proof -
    have "fst (eval_step E w st) = Ret (Some (v, Rule i x lit))"
      using that res handle_addible_first [of E v st1 "Rule i x lit" "Some e2"]
      by (simp add: step handle_result_def)
    then show ?thesis using cur(1) by (cases "eval_step E w st") simp
  qed
  have skip: "eval_step E w st = (Cont, st1)" if "y = Skip"
    using that by (simp add: step handle_result_def)
  have "set (evals (snd (eval_step E w st))) \<subseteq> insert e2 (set (evals st))"
    using ev by (simp add: step handle_result_evals)
  with final skip res cur(1) show ?thesis by simp
qed

theorem innermost_expression_decides_witness:
  "fst (eval_loop (generic_env (ev_inner (Result (VInt 5)))) 0 (Suc 0) override_state)
     = Ret (Some (VInt 5, R3)) \<and>
   eval_loop (generic_env (ev_inner Skip)) 0 (Suc 0) override_state
     = eval_loop (generic_env (ev_inner Skip)) 0 0
         (snd (eval_step (generic_env (ev_inner Skip)) 0 override_state)) \<and>
   result (snd (eval_step (generic_env (ev_inner Skip)) 0 override_state)) = None \<and>
   path_idx (snd (eval_step (generic_env (ev_inner Skip)) 0 override_state)) = 3"
proof -
  let ?p = "\<lparr>root_schedule = override_sched, path_rules = [R1, R2, R3]\<rparr>"
  have cur: "path_idx override_state < length (paths override_state)"
    "paths override_state ! path_idx override_state = ?p"
    by (simp_all add: override_state_def)
  have frontier: "path_rules ?p \<noteq> []" "last (path_rules ?p) = Rule 3 None VNone"
    by (simp_all add: R3_def)
  have anc: "rules_with_expr_or_value ?p = [] @ [R1, R2]"
    by (simp add: rules_with_expr_or_value_def R1_def R2_def R3_def)
  have exprs: "expr R1 = Some 1" "expr R2 = Some 2"
    by (simp_all add: R1_def R2_def)
  have y5: "(case expr_cache override_state 2 of Some c \<Rightarrow> c
             | None \<Rightarrow> room_eval_expr (generic_env (ev_inner (Result (VInt 5)))) 2)
            = Inr (Result (VInt 5))"
    by (simp add: override_state_def room_eval_expr_def eval_expr_def generic_env_def
          ev_inner_def)
  have ys: "(case expr_cache override_state 2 of Some c \<Rightarrow> c
             | None \<Rightarrow> room_eval_expr (generic_env (ev_inner Skip)) 2) = Inr Skip"
    by (simp add: override_state_def room_eval_expr_def eval_expr_def generic_env_def
          ev_inner_def)
  have v: "validate_value (generic_env (ev_inner (Result (VInt 5)))) (VInt 5) = VInt 5"
    "result override_state = None"
    by (simp_all add: validate_value_def generic_env_def override_state_def)
  show ?thesis
    using innermost_expression_decides [OF cur frontier anc exprs y5, of "VInt 5" 0 0]
      innermost_expression_decides [OF cur frontier anc exprs ys, of "VInt 5" 0 0] v
    by (simp add: R3_def override_state_def)
qed

text \<open>The state \<open>override_state\<close> is the one the run on \<open>override_sched\<close> reaches.\<close>

lemma override_state_reached:
  "eval_loop (generic_env ev) 0 (Suc (Suc 0)) (init_state (generic_env ev) override_sched 0)
     = (Cont, override_state)"
  by (simp add: run_simps override_sched_def R1_def R2_def R3_def override_state_def)

subsection \<open>C2: pruning on Break\<close>

lemmas break_defs =
  break_sched_def rule_A_def rule_B_def rule_C_def rule_D_def rule_E_def ev_break_def
  break_path_def break_state_def

lemma break_state_reached:
  "eval_loop (generic_env (ev_break n)) 0 (Suc (Suc 0))
     (init_state (generic_env (ev_break n)) break_sched 0) = (Cont, break_state)"
  by (simp add: run_simps break_defs)

text \<open>The inner loop deletes the run of paths that starts at the cursor and shares
  root schedule and prefix.\<close>

lemma prune_paths_dropWhile:
  "prune_paths ps idx root n prefix =
     take idx ps @
     dropWhile (\<lambda>q. root_schedule q = root \<and> take n (path_rules q) = prefix) (drop idx ps)"
proof (induction ps idx root n prefix rule: prune_paths.induct)
  case (1 ps idx root n prefix)
  let ?P = "\<lambda>q. root_schedule q = root \<and> take n (path_rules q) = prefix"
  show ?case
  proof (cases "idx < length ps")
    case False
    then show ?thesis by (simp add: prune_paths.simps)
  next
    case True
    then have split: "drop idx ps = ps ! idx # drop (Suc idx) ps"
      by (simp add: Cons_nth_drop_Suc)
    show ?thesis
    proof (cases "?P (ps ! idx)")
      case False
      with True show ?thesis
        by (subst prune_paths.simps) (auto simp: split id_take_nth_drop [symmetric])
    next
      case match: True
      have "prune_paths ps idx root n prefix = prune_paths (list_del ps idx) idx root n prefix"
        using True match by (subst prune_paths.simps) simp
      also have "\<dots> = take idx (list_del ps idx) @ dropWhile ?P (drop idx (list_del ps idx))"
        using "1.IH" True match by simp
      also have "take idx (list_del ps idx) = take idx ps"
        using True by (simp add: list_del_def)
      also have "drop idx (list_del ps idx) = drop (Suc idx) ps"
        using True by (simp add: list_del_def)
      finally show ?thesis using match by (simp add: split)
    qed
  qed
qed

text \<open>
  C2, as stated: the worklist holds \<open>[A, B, C]\<close>, \<open>[A, B, D]\<close>, \<open>[A, E]\<close> under one root
  schedule, and \<open>[A, B, C]\<close> yields \<open>Break(2)\<close>. The claim has \<open>[A, E]\<close> kept; after the
  iteration it is no longer in the worklist.
\<close>

theorem break_two_keeps_sibling_counterexample:
  "paths break_state ! path_idx break_state = break_path [rule_A, rule_B, rule_C] \<and>
   drop (Suc (path_idx break_state)) (paths break_state)
     = [break_path [rule_A, rule_B, rule_D], break_path [rule_A, rule_E]] \<and>
   break_path [rule_A, rule_E]
     \<notin> set (paths (snd (eval_step (generic_env (ev_break 2)) 0 break_state)))"
  by (simp add: run_simps break_defs prune_paths_dropWhile)

text \<open>
  C2 (amended). With the worklist and the cursor as above: when \<open>[A, B, C]\<close> yields
  \<open>Break(2)\<close> the prefix is \<open>[A]\<close> and the pruning removes both unvisited paths,
  \<open>[A, B, D]\<close> and \<open>[A, E]\<close>, so that the run returns no result; when it yields
  \<open>Break(1)\<close> the prefix is \<open>[A, B]\<close> and the pruning removes \<open>[A, B, D]\<close> and keeps
  \<open>[A, E]\<close>, whose value 18 the run returns.
\<close>

theorem break_prunes_shared_prefix:
  "paths (snd (eval_step (generic_env (ev_break 2)) 0 break_state))
     = [break_path [rule_A], break_path [rule_A, rule_B], break_path [rule_A, rule_B, rule_C]] \<and>
   paths (snd (eval_step (generic_env (ev_break 1)) 0 break_state))
     = [break_path [rule_A], break_path [rule_A, rule_B], break_path [rule_A, rule_B, rule_C],
        break_path [rule_A, rule_E]] \<and>
   fst (eval_schedule (generic_env (ev_break 2)) 4 break_sched 0) = Ret None \<and>
   fst (eval_schedule (generic_env (ev_break 1)) 4 break_sched 0) = Ret (Some (VInt 18, rule_E))"
  by (simp add: run_simps break_defs prune_paths_dropWhile eval_nat_numeral)

subsection \<open>C3: a value reported by an actor\<close>

text \<open>Without replication the report is compared with the wanted value the room had:
  agreement cancels the timer, a different value starts one when a delay is
  configured.\<close>

lemma notify_value_changed_plain:
  assumes "\<not> (cfg_replicate_changes rm \<and> length (actors rm) > 1)"
  shows "(py_eq value (wanted_value rm) \<longrightarrow>
            notify_value_changed E actor value rm = snd (cancel_reschedule_timer rm)) \<and>
         (\<not> py_eq value (wanted_value rm) \<and> cfg_reschedule_delay rm \<noteq> 0 \<longrightarrow>
            notify_value_changed E actor value rm = snd (start_reschedule_timer E None True rm) \<and>
            reschedule_timer (notify_value_changed E actor value rm) = Some (next_timer rm))"
  using assms
  by (auto simp: notify_value_changed_def start_reschedule_timer_def cancel_reschedule_timer_def
        Let_def split: option.splits)

text \<open>With replication the wanted value is overwritten before the comparison, which
  then always succeeds: no timer is running afterwards.\<close>

lemma notify_value_changed_replicating:
  assumes "cfg_replicate_changes rm" "length (actors rm) > 1"
  shows "reschedule_timer (notify_value_changed E actor value rm) = None \<and>
         wanted_value (notify_value_changed E actor value rm) = value"
  using assms
  by (auto simp: notify_value_changed_def set_value_def cancel_reschedule_timer_def py_eq_refl
        Let_def split: option.splits)

text \<open>
  C3 at a room that replicates changes to its two actors, wants 20 and has a
  re-schedule delay of 60 minutes: an actor reports 22. The value differs from the
  wanted one and a delay is configured, but no re-schedule timer is started; and a
  timer that was running is cancelled.
\<close>

theorem replicated_drift_starts_no_timer:
  "\<not> py_eq (VInt 22) (wanted_value drift_room) \<and> cfg_reschedule_delay drift_room \<noteq> 0 \<and>
   notify_value_changed E 1 (VInt 22) drift_room
     = drift_room\<lparr>wanted_value := VInt 22,
                   sent := [(1, VInt 22, False), (2, VInt 22, False)]\<rparr> \<and>
   reschedule_timer (notify_value_changed E 1 (VInt 22) drift_room) = None \<and>
   reschedule_timer (notify_value_changed E 1 (VInt 22)
      (drift_room\<lparr>reschedule_timer := Some 0, timers := [(0, 45)], next_timer := 1\<rparr>)) = None"
  by (simp add: notify_value_changed_def set_value_def cancel_reschedule_timer_def
        drift_room_def)

subsection \<open>C4: equality of results\<close>

text \<open>
  C4, as stated, at \<open>Break(1)\<close> and \<open>Break(2)\<close>: the claim makes two results equal
  exactly when they have the same variant and equal payloads, so these two would be
  unequal; \<open>==\<close> finds them equal.
\<close>

theorem break_levels_equal_counterexample:
  "\<not> (result_eq (Break 1) (Break 2) \<longleftrightarrow>
        (type_of (Break 1) = type_of (Break 2) \<and> (1::int) = 2))"
  by (simp add: result_eq_def ResultBase_eq_def)

text \<open>
  C4 (amended). Equal results are of the same variant, and for the variants that are
  not addible (\<open>Abort\<close>, \<open>Break\<close>, \<open>IncludeSchedule\<close>, \<open>Skip\<close>) equality is exactly
  equality of the variant: the levels of a \<open>Break\<close> and the schedule of an
  \<open>IncludeSchedule\<close> are not compared.
\<close>

theorem result_eq_compares_variant:
  "(result_eq a b \<longrightarrow> type_of a = type_of b) \<and>
   (\<not> is_addible a \<longrightarrow> (result_eq a b \<longleftrightarrow> type_of a = type_of b))"
  by (simp add: result_eq_def ResultBase_eq_def)

theorem result_eq_compares_variant_witness:
  "\<not> is_addible (Break 1) \<and> result_eq (Break 1) (Break 2) \<and>
   type_of (Break 1) = type_of (Break 2) \<and> \<not> result_eq (Break 1) Skip"
  using result_eq_compares_variant [of "Break 1" "Break 2"]
    result_eq_compares_variant [of "Break 1" Skip]
  by simp

text \<open>For the addible variants the comparison of the values written in
  \<open>AddibleMixin.__eq__\<close> is never reached.\<close>

lemma result_eq_addible_example:
  "result_eq (Result (VInt 5)) (Result (VInt 7)) \<and>
   \<not> AddibleMixin_eq (Result (VInt 5)) (Result (VInt 7))"
  by (simp add: result_eq_def ResultBase_eq_def)

subsection \<open>C5: addition of results\<close>

text \<open>
  C5. \<open>Add(x) + r\<close> for an addible \<open>r\<close> (\<open>Add(y)\<close> or \<open>Result(y)\<close>) is of the variant of
  \<open>r\<close> with payload \<open>x + y\<close>, the sum of the payloads in Python (which raises
  \<open>TypeError\<close> itself when the payloads cannot be added); for every other right operand
  the addition raises \<open>TypeError\<close>. When, during the traversal, adding the result of the
  current path to the accumulator raises \<open>TypeError\<close> (the accumulator not being the
  cached object the result of the path was read from), the iteration ends normally:
  the accumulator and the worklist are as before, the cursor has moved to the next
  path, and the loop goes on from there.
\<close>

theorem accumulate_addition:
  "result_add (Add x) (Add y) = (case py_add x y of Inl e \<Rightarrow> Inl e | Inr s \<Rightarrow> Inr (Add s)) \<and>
   result_add (Add x) (Result y) = (case py_add x y of Inl e \<Rightarrow> Inl e | Inr s \<Rightarrow> Inr (Result s)) \<and>
   (\<not> is_addible other \<longrightarrow> result_add (Add x) other = Inl TypeError) \<and>
   (path_idx st < length (paths st) \<and> paths st ! path_idx st = p \<and>
    path_rules p \<noteq> [] \<and> last (path_rules p) = Rule i xp lit \<and>
    scan_rules E (rev (rules_with_expr_or_value p)) (st\<lparr>path_idx := Suc (path_idx st)\<rparr>)
      = (Some (Inr r, src), st1) \<and>
    addible_value r = Some v \<and> validate_value E v \<noteq> VNone \<and>
    result st = Some acc \<and> (src = None \<or> result_src st \<noteq> src) \<and>
    result_add acc (set_payload r (validate_value E v)) = Inl TypeError
    \<longrightarrow>
      fst (eval_step E w st) = Cont \<and>
      result (snd (eval_step E w st)) = Some acc \<and>
      paths (snd (eval_step E w st)) = paths st \<and>
      path_idx (snd (eval_step E w st)) = Suc (path_idx st) \<and>
      eval_loop E w (Suc n) st = eval_loop E w n (snd (eval_step E w st)))"
proof -
  have alg: "\<not> is_addible other \<longrightarrow> result_add (Add x) other = Inl TypeError"
    by (cases other) simp_all
  have trav: "fst (eval_step E w st) = Cont \<and>
      result (snd (eval_step E w st)) = Some acc \<and>
      paths (snd (eval_step E w st)) = paths st \<and>
      path_idx (snd (eval_step E w st)) = Suc (path_idx st) \<and>
      eval_loop E w (Suc n) st = eval_loop E w n (snd (eval_step E w st))"
    if cur: "path_idx st < length (paths st)" "paths st ! path_idx st = p"
      and frontier: "path_rules p \<noteq> []" "last (path_rules p) = Rule i xp lit"
      and scan: "scan_rules E (rev (rules_with_expr_or_value p))
                   (st\<lparr>path_idx := Suc (path_idx st)\<rparr>) = (Some (Inr r, src), st1)"
      and r: "addible_value r = Some v" "validate_value E v \<noteq> VNone"
      and acc: "result st = Some acc" "src = None \<or> result_src st \<noteq> src"
      and fail: "result_add acc (set_payload r (validate_value E v)) = Inl TypeError"
  proof -
    have fr: "result st1 = Some acc" "result_src st1 = result_src st" "paths st1 = paths st"
      "path_idx st1 = Suc (path_idx st)"
      using scan_rules_frame [OF scan] acc(1) by simp_all
    have step: "eval_step E w st = handle_addible E (Rule i xp lit) r v src st1"
      using eval_step_value_rule [OF cur(2) frontier scan] r(1)
      by (cases r) (simp_all add: handle_result_def)
    have "eval_step E w st =
            (Cont, st1\<lparr>expr_cache :=
                         (case src of None \<Rightarrow> expr_cache st1
                          | Some e \<Rightarrow> (expr_cache st1)(e \<mapsto> Inr (set_payload r (validate_value E v)))),
                       result := Some acc\<rparr>)"
      using r(2) acc(2) fr fail by (auto simp: step handle_addible_def Let_def)
    then show ?thesis using fr cur(1) by simp
  qed
  show ?thesis using alg trav by simp
qed


theorem accumulate_addition_witness:
  "result_add (Add (VInt 2)) (Result (VInt 3)) = Inr (Result (VInt 5)) \<and>
   result_add (Add (VInt 2)) (Add (VInt 3)) = Inr (Add (VInt 5)) \<and>
   result_add (Add (VInt 2)) Abort = Inl TypeError \<and>
   result_add (Add (VInt 2)) (Result (VStr ''x'')) = Inl TypeError \<and>
   fst (eval_step (generic_env (ev_accum (Result (VStr ''x'')))) 0 accum_state) = Cont \<and>
   result (snd (eval_step (generic_env (ev_accum (Result (VStr ''x'')))) 0 accum_state))
     = Some (Add (VInt 2)) \<and>
   path_idx (snd (eval_step (generic_env (ev_accum (Result (VStr ''x'')))) 0 accum_state)) = 2"
  using accumulate_addition
    [where x = "VInt 2" and y = "VInt 3" and other = Abort and st = accum_state
       and p = "\<lparr>root_schedule = accum_sched, path_rules = [Rule 2 (Some 2) VNone]\<rparr>"
       and i = 2 and xp = "Some 2" and lit = VNone
       and E = "generic_env (ev_accum (Result (VStr ''x'')))"
       and r = "Result (VStr ''x'')" and src = "Some 2" and v = "VStr ''x''"
       and acc = "Add (VInt 2)" and w = 0 and n = 0
       and ?st1.0 = "accum_state\<lparr>path_idx := 2,
                      expr_cache := [1 \<mapsto> Inr (Add (VInt 2)), 2 \<mapsto> Inr (Result (VStr ''x''))],
                      evals := [1, 2]\<rparr>"]
  by (simp add: accum_state_def rules_with_expr_or_value_def room_eval_expr_def eval_expr_def
        generic_env_def ev_accum_def validate_value_def)

subsection \<open>C6: memoization of expressions\<close>

text \<open>
  C6. At every point of a call of \<open>eval_schedule\<close> (after any number of iterations, whether
  or not it has returned) no expression has been handed to the evaluator twice. A rule
  whose expression is in the cache gets the cached entry and nothing is evaluated; a
  rule whose expression is not in the cache has it evaluated once and stored, also when
  the evaluation raised.
\<close>

theorem expression_evaluated_once:
  "distinct (evals (snd (eval_schedule E fuel sched w))) \<and>
   (expr r = Some e \<and> expr_cache st e = Some c \<longrightarrow>
      scan_rules E (r # rs) st = (Some (c, Some e), st)) \<and>
   (expr r = Some e \<and> expr_cache st e = None \<longrightarrow>
      evals (snd (scan_rules E (r # rs) st)) = evals st @ [e] \<and>
      expr_cache (snd (scan_rules E (r # rs) st)) e = Some (room_eval_expr E e)) \<and>
   (py_eval E e = Inl err \<longrightarrow> room_eval_expr E e = Inl err)"
proof -
  have "memo_inv (snd (eval_loop E w fuel (init_state E sched w)))"
    using init_state_memo by (rule eval_loop_memo)
  then have "distinct (evals (snd (eval_schedule E fuel sched w)))"
    by (simp add: eval_schedule_def memo_inv_def)
  then show ?thesis
    by (simp add: room_eval_expr_def eval_expr_def)
qed

theorem expression_evaluated_once_witness:
  "evals (snd (eval_schedule (generic_env ev_memo) 3 memo_sched 0)) = [1, 2] \<and>
   fst (eval_schedule (generic_env ev_memo) 3 memo_sched 0) = Ret (Some (VInt 5, Rule 3 (Some 2) VNone)) \<and>
   expr_cache (snd (eval_schedule (generic_env ev_memo) 3 memo_sched 0)) 1 = Some (Inl OtherError) \<and>
   distinct (evals (snd (eval_schedule (generic_env ev_memo) 3 memo_sched 0)))"
  using expression_evaluated_once [of "generic_env ev_memo" 3 memo_sched 0]
  by (simp add: run_simps eval_nat_numeral memo_sched_def ev_memo_def)

subsection \<open>C7: Abort\<close>

text \<open>
  C7. When a run that is still going after \<open>k\<close> iterations has its cursor on a path whose
  scan yields \<open>Abort\<close>, the run returns no result in the next iteration, whatever has
  been accumulated. When the resolution returns no result, \<open>apply_schedule\<close> returns the
  room as it was: \<open>scheduled_value\<close>, \<open>wanted_value\<close>, the re-schedule timer and the log
  of values sent to the actors are unchanged.
\<close>

theorem abort_returns_no_result:
  "(eval_loop E w k st0 = (Cont, st) \<and>
    path_idx st < length (paths st) \<and> paths st ! path_idx st = p \<and>
    path_rules p \<noteq> [] \<and> last (path_rules p) = Rule i x lit \<and>
    scan_rules E (rev (rules_with_expr_or_value p)) (st\<lparr>path_idx := Suc (path_idx st)\<rparr>)
      = (Some (Inr Abort, src), st1)
    \<longrightarrow> eval_loop E w (k + Suc n) st0 = (Ret None, st1)) \<and>
   (get_scheduled_value E fuel rm = Ret None \<longrightarrow>
      apply_schedule E fuel send force_resend rm = Done rm)"
proof -
  have run: "eval_loop E w (k + Suc n) st0 = (Ret None, st1)"
    if k: "eval_loop E w k st0 = (Cont, st)"
      and cur: "path_idx st < length (paths st)" "paths st ! path_idx st = p"
      and frontier: "path_rules p \<noteq> []" "last (path_rules p) = Rule i x lit"
      and scan: "scan_rules E (rev (rules_with_expr_or_value p))
                   (st\<lparr>path_idx := Suc (path_idx st)\<rparr>) = (Some (Inr Abort, src), st1)"
  proof -
    have "eval_step E w st = (Ret None, st1)"
      using eval_step_value_rule [OF cur(2) frontier scan] by (simp add: handle_result_def)
    then have "eval_loop E w (Suc n) st = (Ret None, st1)"
      using cur(1) by simp
    with eval_loop_add [OF k, of "Suc n"] show ?thesis by simp
  qed
  have "apply_schedule E fuel send force_resend rm = Done rm"
    if "get_scheduled_value E fuel rm = Ret None"
    using that by (simp add: apply_schedule_def)
  with run show ?thesis by blast
qed

theorem abort_returns_no_result_witness:
  "eval_loop (generic_env (ev_accum Abort)) 0 (1 + Suc 1)
     (init_state (generic_env (ev_accum Abort)) accum_sched 0)
     = (Ret None, accum_state\<lparr>path_idx := 2,
                     expr_cache := [1 \<mapsto> Inr (Add (VInt 2)), 2 \<mapsto> Inr Abort],
                     evals := [1, 2]\<rparr>) \<and>
   get_scheduled_value (generic_env (ev_accum Abort)) 3 (switch_room accum_sched) = Ret None \<and>
   apply_schedule (generic_env (ev_accum Abort)) 3 True False (switch_room accum_sched)
     = Done (switch_room accum_sched)"
proof -
  let ?E = "generic_env (ev_accum Abort)"
  let ?st1 = "accum_state\<lparr>path_idx := 2,
                expr_cache := [1 \<mapsto> Inr (Add (VInt 2)), 2 \<mapsto> Inr Abort], evals := [1, 2]\<rparr>"
  have scan: "scan_rules ?E
      (rev (rules_with_expr_or_value \<lparr>root_schedule = accum_sched, path_rules = [Rule 2 (Some 2) VNone]\<rparr>))
      (accum_state\<lparr>path_idx := Suc (path_idx accum_state)\<rparr>) = (Some (Inr Abort, Some 2), ?st1)"
    by (simp add: accum_state_def rules_with_expr_or_value_def room_eval_expr_def eval_expr_def
          generic_env_def ev_accum_def)
  have cur: "path_idx accum_state < length (paths accum_state)"
    "paths accum_state ! path_idx accum_state
       = \<lparr>root_schedule = accum_sched, path_rules = [Rule 2 (Some 2) VNone]\<rparr>"
    by (simp_all add: accum_state_def)
  have none: "get_scheduled_value ?E 3 (switch_room accum_sched) = Ret None"
    by (simp add: get_scheduled_value_def switch_room_def run_simps eval_nat_numeral
          accum_sched_def ev_accum_def)
  show ?thesis
    using abort_returns_no_result
      [where E = ?E and w = 0 and k = 1 and n = 1 and st = accum_state
         and ?st0.0 = "init_state ?E accum_sched 0"
         and p = "\<lparr>root_schedule = accum_sched, path_rules = [Rule 2 (Some 2) VNone]\<rparr>"
         and i = 2 and x = "Some 2" and lit = VNone and src = "Some 2" and ?st1.0 = ?st1
         and fuel = 3 and rm = "switch_room accum_sched" and send = True
         and force_resend = False]
      accum_state_reached [of Abort] scan cur none
    by simp
qed

subsection \<open>C8: no redundant push\<close>

lemma overridden_room_reached:
  "set_value_manually E (VStr ''on'') False None (switch_room switch_sched) = Done rm1 \<Longrightarrow>
   notify_value_changed E 1 (VStr ''on'') rm1 = overridden_room"
  by (auto simp: set_value_manually_def set_value_def start_reschedule_timer_def
        notify_value_changed_def cancel_reschedule_timer_def switch_room_def
        overridden_room_def Let_def)

text \<open>
  C8, as stated, at \<open>overridden_room\<close>: the last value sent to the actor is \<open>on\<close>, and
  the schedule now resolves to \<open>on\<close>, the value last pushed. The claim has the push
  skipped; \<open>apply_schedule\<close>, without force-resend, sends \<open>on\<close> to the actor again,
  because the value it compares with is \<open>scheduled_value\<close>, still \<open>off\<close>.
\<close>

theorem resolved_equals_pushed_counterexample:
  "last (sent overridden_room) = (1, VStr ''on'', False) \<and>
   py_eq (VStr ''on'') (wanted_value overridden_room) \<and>
   get_scheduled_value (generic_env (ev_const (VStr ''on''))) 1 overridden_room
     = Ret (Some (VStr ''on'', Rule 1 (Some 1) VNone)) \<and>
   apply_schedule (generic_env (ev_const (VStr ''on''))) 1 True False overridden_room
     = Done (overridden_room\<lparr>scheduled_value := VStr ''on'', sensor := Some ''on'',
               sent := [(1, VStr ''on'', False), (1, VStr ''on'', False)]\<rparr>)"
  by (simp add: apply_schedule_def get_scheduled_value_def set_value_def run_simps
        overridden_room_def switch_sched_def ev_const_def)

text \<open>
  C8 (amended). With no re-schedule timer running and a resolution that returns \<open>v\<close>:
  \<open>apply_schedule\<close> leaves the room untouched and sends nothing when \<open>v\<close> equals
  \<open>scheduled_value\<close>, the value recorded by the last scheduling run, and force-resend is
  not set; otherwise it records \<open>v\<close> and sends it to every actor once. So two calls with
  the same resolved value, the first of which finds a different \<open>scheduled_value\<close>, send
  \<open>v\<close> to every actor exactly once between them, and a further call with force-resend
  sends it again.
\<close>

theorem apply_schedule_push_once:
  "(reschedule_timer rm = None \<and> get_scheduled_value E fuel rm = Ret (Some (v, r)) \<and>
    py_eq v (scheduled_value rm) \<and> \<not> force_resend
    \<longrightarrow> apply_schedule E fuel send force_resend rm = Done rm) \<and>
   (reschedule_timer rm = None \<and> get_scheduled_value E fuel rm = Ret (Some (v, r)) \<and>
    (\<not> py_eq v (scheduled_value rm) \<or> force_resend)
    \<longrightarrow> (\<exists>rm'. apply_schedule E fuel True force_resend rm = Done rm' \<and>
               sent rm' = sent rm @ map (\<lambda>actor. (actor, v, force_resend)) (actors rm) \<and>
               scheduled_value rm' = v \<and> wanted_value rm' = v \<and>
               reschedule_timer rm' = None \<and> actors rm' = actors rm)) \<and>
   (reschedule_timer rm = None \<and> get_scheduled_value E fuel rm = Ret (Some (v, r)) \<and>
    \<not> py_eq v (scheduled_value rm) \<and>
    apply_schedule E fuel True False rm = Done rm1 \<and>
    get_scheduled_value E' fuel' rm1 = Ret (Some (v, r'))
    \<longrightarrow> sent rm1 = sent rm @ map (\<lambda>actor. (actor, v, False)) (actors rm) \<and>
        apply_schedule E' fuel' True False rm1 = Done rm1 \<and>
        (\<exists>rm2. apply_schedule E' fuel' True True rm1 = Done rm2 \<and>
                sent rm2 = sent rm1 @ map (\<lambda>actor. (actor, v, True)) (actors rm)))"
proof -
  have skip: "apply_schedule E fuel send force_resend rm = Done rm"
    if "reschedule_timer rm = None" "get_scheduled_value E fuel rm = Ret (Some (v, r))"
      "py_eq v (scheduled_value rm)" "\<not> force_resend"
    for E fuel send force_resend rm r
    using that by (simp add: apply_schedule_def)
  have push: "\<exists>rm'. apply_schedule E fuel True force_resend rm = Done rm' \<and>
               sent rm' = sent rm @ map (\<lambda>actor. (actor, v, force_resend)) (actors rm) \<and>
               scheduled_value rm' = v \<and> wanted_value rm' = v \<and>
               reschedule_timer rm' = None \<and> actors rm' = actors rm"
    if "reschedule_timer rm = None" "get_scheduled_value E fuel rm = Ret (Some (v, r))"
      "\<not> py_eq v (scheduled_value rm) \<or> force_resend"
    for E fuel force_resend rm r
    using that
    by (auto simp: apply_schedule_def set_value_def Let_def split: option.splits)
  have twice: "sent rm1 = sent rm @ map (\<lambda>actor. (actor, v, False)) (actors rm) \<and>
        apply_schedule E' fuel' True False rm1 = Done rm1 \<and>
        (\<exists>rm2. apply_schedule E' fuel' True True rm1 = Done rm2 \<and>
                sent rm2 = sent rm1 @ map (\<lambda>actor. (actor, v, True)) (actors rm))"
    if a: "reschedule_timer rm = None" "get_scheduled_value E fuel rm = Ret (Some (v, r))"
      "\<not> py_eq v (scheduled_value rm)"
      and b: "apply_schedule E fuel True False rm = Done rm1"
      and c: "get_scheduled_value E' fuel' rm1 = Ret (Some (v, r'))"
  proof -
    from push [of rm E fuel r False] a b
    have rm1: "sent rm1 = sent rm @ map (\<lambda>actor. (actor, v, False)) (actors rm)"
      "scheduled_value rm1 = v" "reschedule_timer rm1 = None" "actors rm1 = actors rm"
      by auto
    have "apply_schedule E' fuel' True False rm1 = Done rm1"
      using skip [of rm1 E' fuel' r' False True] rm1 c by (simp add: py_eq_refl)
    moreover have "\<exists>rm2. apply_schedule E' fuel' True True rm1 = Done rm2 \<and>
                sent rm2 = sent rm1 @ map (\<lambda>actor. (actor, v, True)) (actors rm)"
      using push [of rm1 E' fuel' r' True] rm1 c by auto
    ultimately show ?thesis using rm1 by simp
  qed
  show ?thesis using skip push twice by blast
qed

theorem apply_schedule_push_once_witness:
  "apply_schedule (generic_env (ev_const (VStr ''on''))) 1 True False (switch_room switch_sched)
     = Done ((switch_room switch_sched)
              \<lparr>wanted_value := VStr ''on'', scheduled_value := VStr ''on'',
                 sent := [(1, VStr ''on'', False)], sensor := Some ''on''\<rparr>) \<and>
   apply_schedule (generic_env (ev_const (VStr ''on''))) 1 True False
     ((switch_room switch_sched)
        \<lparr>wanted_value := VStr ''on'', scheduled_value := VStr ''on'',
           sent := [(1, VStr ''on'', False)], sensor := Some ''on''\<rparr>)
     = Done ((switch_room switch_sched)
              \<lparr>wanted_value := VStr ''on'', scheduled_value := VStr ''on'',
                 sent := [(1, VStr ''on'', False)], sensor := Some ''on''\<rparr>) \<and>
   apply_schedule (generic_env (ev_const (VStr ''on''))) 1 True True
     ((switch_room switch_sched)
        \<lparr>wanted_value := VStr ''on'', scheduled_value := VStr ''on'',
           sent := [(1, VStr ''on'', False)], sensor := Some ''on''\<rparr>)
     = Done ((switch_room switch_sched)
              \<lparr>wanted_value := VStr ''on'', scheduled_value := VStr ''on'',
                 sent := [(1, VStr ''on'', False), (1, VStr ''on'', True)],
                 sensor := Some ''on''\<rparr>)"
proof -
  let ?E = "generic_env (ev_const (VStr ''on''))"
  let ?rm = "switch_room switch_sched"
  let ?rm1 = "?rm\<lparr>wanted_value := VStr ''on'', scheduled_value := VStr ''on'',
                   sent := [(1, VStr ''on'', False)], sensor := Some ''on''\<rparr>"
  have res: "get_scheduled_value ?E 1 ?rm = Ret (Some (VStr ''on'', Rule 1 (Some 1) VNone))"
    "get_scheduled_value ?E 1 ?rm1 = Ret (Some (VStr ''on'', Rule 1 (Some 1) VNone))"
    by (simp_all add: get_scheduled_value_def run_simps switch_room_def switch_sched_def
          ev_const_def)
  have first: "apply_schedule ?E 1 True False ?rm = Done ?rm1"
    by (simp add: apply_schedule_def get_scheduled_value_def set_value_def run_simps
          switch_room_def switch_sched_def ev_const_def)
  have pre: "reschedule_timer ?rm = None" "\<not> py_eq (VStr ''on'') (scheduled_value ?rm)"
    by (simp_all add: switch_room_def)
  have second: "apply_schedule ?E 1 True False ?rm1 = Done ?rm1"
    using apply_schedule_push_once
      [where rm = ?rm and E = ?E and fuel = 1 and v = "VStr ''on''"
         and r = "Rule 1 (Some 1) VNone" and ?rm1.0 = ?rm1 and E' = ?E and fuel' = 1
         and r' = "Rule 1 (Some 1) VNone" and force_resend = False and send = True]
      res first pre
    by (simp add: switch_room_def)
  have third: "apply_schedule ?E 1 True True ?rm1
     = Done (?rm\<lparr>wanted_value := VStr ''on'', scheduled_value := VStr ''on'',
                 sent := [(1, VStr ''on'', False), (1, VStr ''on'', True)],
                 sensor := Some ''on''\<rparr>)"
    by (simp add: apply_schedule_def get_scheduled_value_def set_value_def run_simps
          switch_room_def switch_sched_def ev_const_def)
  show ?thesis using first second third by simp
qed

subsection \<open>C9: construction of Break\<close>

text \<open>
  C9. \<open>Break(levels)\<close> raises \<open>ValueError\<close> when \<open>levels\<close> is below 1 or is not an
  integer (a string, \<open>None\<close>), so every \<open>Break\<close> that has been constructed holds a level
  count of at least 1; for every integer \<open>n \<ge> 1\<close> the construction succeeds and stores
  \<open>n\<close>.
\<close>

theorem break_init_checks_levels:
  "Break_init (VInt n) = (if 1 \<le> n then Inr (Break n) else Inl ValueError) \<and>
   Break_init (VInt 0) = Inl ValueError \<and>
   Break_init (VStr s) = Inl ValueError \<and>
   Break_init VNone = Inl ValueError \<and>
   (Break_init v = Inr r \<longrightarrow> (\<exists>m. 1 \<le> m \<and> r = Break m \<and> as_int v = Some m)) \<and>
   (as_int v = None \<or> (\<exists>m. as_int v = Some m \<and> m < 1) \<longrightarrow> Break_init v = Inl ValueError)"
  by (auto simp: Break_init_def split: option.splits if_splits)

theorem break_init_checks_levels_witness:
  "Break_init (VInt 2) = Inr (Break 2) \<and> Break_init (VInt 0) = Inl ValueError \<and>
   Break_init (VInt (- 3)) = Inl ValueError \<and> Break_init (VStr ''2'') = Inl ValueError"
  using break_init_checks_levels [of 2 "''2''" "VInt 2" "Break 2"]
    break_init_checks_levels [of "- 3" "''2''" "VInt (- 3)" "Break 2"]
  by simp

subsection \<open>C10: plain values become final results\<close>

text \<open>
  C10. When the evaluation of an expression returns a value \<open>v\<close> that is not a result
  object, \<open>expression.eval_expr\<close>, and with it \<open>Room.eval_expr\<close>, returns \<open>Result(v)\<close>; so
  for \<open>None\<close> it returns \<open>Result(None)\<close>.
\<close>

theorem plain_value_wrapped:
  "py_eval E e = Inr (Plain v) \<Longrightarrow>
     eval_expr (py_eval E) e = Inr (Result v) \<and> room_eval_expr E e = Inr (Result v)"
  by (simp add: eval_expr_def room_eval_expr_def)

theorem plain_value_wrapped_witness:
  "py_eval (generic_env (\<lambda>e. Inr (Plain VNone))) 0 = Inr (Plain VNone) \<and>
   eval_expr (py_eval (generic_env (\<lambda>e. Inr (Plain VNone)))) 0 = Inr (Result VNone) \<and>
   room_eval_expr (generic_env (\<lambda>e. Inr (Plain VNone))) 0 = Inr (Result VNone)"
proof -
  have h: "py_eval (generic_env (\<lambda>e. Inr (Plain VNone))) 0 = Inr (Plain VNone)"
    by (simp add: generic_env_def)
  show ?thesis using h plain_value_wrapped [OF h] by simp
qed

end
